theory Spec2Isabelle
  imports Complex_Main
begin

section \<open>Session store and view router (App.tsx)\<close>

text \<open>
  The App component keeps two pieces of session state: the entry \<open>auth_token\<close> of the
  browser's persisted storage (absent, or a string) and the in-memory flag
  \<open>isAuthenticated\<close> created by \<open>React.useState(false)\<close>.
\<close>

record session =
  auth_token :: "string option"
  isAuthenticated :: bool

text \<open>JavaScript's \<open>!!token\<close> for a value that is \<open>null\<close> or a string: only a
  non-empty string is truthy.\<close>

definition truthy :: "string option \<Rightarrow> bool" where
  "truthy token = (case token of None \<Rightarrow> False | Some t \<Rightarrow> t \<noteq> [])"

text \<open>A page load: the state starts at \<open>false\<close>, then the mount effect reads the storage.\<close>

definition initial :: "string option \<Rightarrow> session" where
  "initial stored = \<lparr>auth_token = stored, isAuthenticated = False\<rparr>"

definition checkAuth :: "session \<Rightarrow> session" where
  "checkAuth s = s\<lparr>isAuthenticated := truthy (auth_token s)\<rparr>"

definition reload :: "session \<Rightarrow> session" where
  "reload s = checkAuth (initial (auth_token s))"

definition handleLogin :: "string \<Rightarrow> session \<Rightarrow> session" where
  "handleLogin token s = s\<lparr>auth_token := Some token, isAuthenticated := True\<rparr>"

definition handleLogout :: "session \<Rightarrow> session" where
  "handleLogout s = s\<lparr>auth_token := None, isAuthenticated := False\<rparr>"

text \<open>
  The route table. A location is what the router has matched it to: one of the three
  literal paths \<open>/login\<close>, \<open>/dashboard\<close>, \<open>/\<close>, or anything else (the \<open>*\<close> route).
  Each route's element either renders a screen or is a \<open>Navigate\<close> to another path.
\<close>

datatype location = LoginPath | DashboardPath | RootPath | OtherPath

datatype screen = LoginScreen | DashboardScreen

datatype element = Render screen | Navigate location

fun route :: "bool \<Rightarrow> location \<Rightarrow> element" where
  "route auth LoginPath = (if \<not> auth then Render LoginScreen else Navigate DashboardPath)"
| "route auth DashboardPath = (if auth then Render DashboardScreen else Navigate LoginPath)"
| "route auth RootPath = Navigate (if auth then DashboardPath else LoginPath)"
| "route auth OtherPath = Navigate RootPath"

text \<open>Following the redirects until a screen renders. The number of redirects still
  possible from a location bounds the recursion.\<close>

fun hops :: "bool \<Rightarrow> location \<Rightarrow> nat" where
  "hops auth OtherPath = 2"
| "hops auth RootPath = 1"
| "hops auth LoginPath = (if auth then 1 else 0)"
| "hops auth DashboardPath = (if auth then 0 else 1)"

function resolve :: "bool \<Rightarrow> location \<Rightarrow> location \<times> screen" where
  "resolve auth loc =
     (case route auth loc of
        Render scr \<Rightarrow> (loc, scr)
      | Navigate loc' \<Rightarrow> resolve auth loc')"
  by pat_completeness auto
termination
  by (relation "measure (\<lambda>(auth, loc). hops auth loc)")
     (auto split: if_splits elim: route.elims)

declare resolve.simps [simp del]

definition view :: "session \<Rightarrow> location \<Rightarrow> location \<times> screen" where
  "view s loc = resolve (isAuthenticated s) loc"

section \<open>Session entry (Login.tsx)\<close>

text \<open>Decimal digits of an integer, as JavaScript's string concatenation renders the
  integer \<open>Date.now()\<close>: the digits of the magnitude, after a minus sign for a negative
  one.\<close>

definition digit :: "int \<Rightarrow> char" where
  "digit d = ''0123456789'' ! nat d"

function digits :: "int \<Rightarrow> string" where
  "digits n = (if n < 10 then [digit n] else digits (n div 10) @ [digit (n mod 10)])"
  by pat_completeness auto
termination
  by (relation "measure nat") auto

declare digits.simps [simp del]

definition decimal :: "int \<Rightarrow> string" where
  "decimal n = (if n < 0 then CHR ''-'' # digits (- n) else digits n)"

record login_form =
  email :: string
  password :: string

datatype toast = ToastSuccess string | ToastError string

text \<open>The page while the login screen is shown: the App's session, the Login
  component's two state cells and the notifications raised so far.\<close>

record page =
  sess :: session
  loading :: bool
  error :: string
  toasts :: "toast list"

text \<open>
  \<open>onSubmit\<close>, with the clock reading \<open>now\<close> that \<open>Date.now()\<close> returns. The mock
  validator accepts one pair; the \<open>throw\<close> of the other branch is caught in the same
  function, so both branches return a page, and \<open>finally\<close> clears \<open>loading\<close> on both.
\<close>

definition onSubmit :: "int \<Rightarrow> login_form \<Rightarrow> page \<Rightarrow> page" where
  "onSubmit now form p =
     (let p1 = p\<lparr>loading := True, error := []\<rparr> in
      if email form = ''admin@cryptoanalyzer.com'' \<and> password form = ''admin123'' then
        (let mockToken = ''mock-jwt-token-'' @ decimal now in
         p1\<lparr>sess := handleLogin mockToken (sess p1),
            toasts := toasts p1 @ [ToastSuccess ''Login successful!''],
            loading := False\<rparr>)
      else
        p1\<lparr>error := ''Invalid email or password'',
           toasts := toasts p1 @ [ToastError ''Login failed''],
           loading := False\<rparr>)"

section \<open>Formatter (Dashboard.tsx)\<close>

subsection \<open>JavaScript numbers\<close>

text \<open>
  A JavaScript number is a double: a finite value, \<open>NaN\<close> or one of the two infinities.
  \<open>Finite x\<close> stands for the double whose value is the real number \<open>x\<close> (the two zeros
  are not told apart). Comparisons are exact on that reading; an arithmetic result is
  rounded to the nearest double, and so is the decimal literal of a number.
\<close>

datatype jsnum = Finite real | NaN | PosInf | NegInf

text \<open>
  Rounding to double precision. The binary exponent of a magnitude \<open>a\<close> is found with
  the powers \<open>2, 2^2, 2^4, ..., 2^1024\<close>, each the square of the one before, tried from
  the largest that matters down: for \<open>a\<close> of at least 1, \<open>reduce\<close> builds the largest power
  of two that is at most \<open>a\<close>; for \<open>a\<close> below 1, \<open>raise\<close> builds the largest power of two
  whose product with \<open>a\<close> is still below 2. Below \<open>2^-1022\<close> the exponent stays at -1022,
  the subnormal range. The unit in the last place is 52 binary places below the
  exponent; the value is rounded to the nearest multiple of it, to the even one of two
  equally near. A result of \<open>2^1024\<close> or more, beyond the largest double, is infinite.
\<close>

fun reduce :: "nat \<Rightarrow> int \<Rightarrow> real \<Rightarrow> real \<Rightarrow> real \<times> int \<Rightarrow> real \<times> int" where
  "reduce 0 s p a (pe, e) = (pe, e)"
| "reduce (Suc k) s p a (pe, e) =
     (if a < pe * p then (pe, e)
      else case reduce k (2 * s) (p * p) a (pe, e) of
             (pe', e') \<Rightarrow> if pe' * p \<le> a then (pe' * p, e' + s) else (pe', e'))"

fun raise :: "nat \<Rightarrow> int \<Rightarrow> real \<Rightarrow> real \<Rightarrow> real \<times> int \<Rightarrow> real \<times> int" where
  "raise 0 s p a (pe, e) = (pe, e)"
| "raise (Suc k) s p a (pe, e) =
     (if 2 \<le> a * (pe * p) then (pe, e)
      else case raise k (2 * s) (p * p) a (pe, e) of
             (pe', e') \<Rightarrow> if a * (pe' * p) < 2 then (pe' * p, e' - s) else (pe', e'))"

definition exponent :: "real \<Rightarrow> int" where
  "exponent x =
     max (snd (if 1 \<le> \<bar>x\<bar> then reduce 11 1 2 \<bar>x\<bar> (1, 0) else raise 11 1 2 \<bar>x\<bar> (1, 0)))
       (- 1022)"

definition ulp :: "real \<Rightarrow> real" where
  "ulp x = 2 powi (exponent x - 52)"

definition roundHalfEven :: "real \<Rightarrow> int" where
  "roundHalfEven y =
     (let f = \<lfloor>y\<rfloor>; d = y - of_int f in
      if d < 1 / 2 then f else if 1 / 2 < d then f + 1 else if even f then f else f + 1)"

definition toDouble :: "real \<Rightarrow> jsnum" where
  "toDouble x =
     (let e = exponent x; n = roundHalfEven (x / ulp x) in
      if 1023 < e \<or> (e = 1023 \<and> \<bar>n\<bar> = 2 ^ 53)
      then (if 0 < x then PosInf else NegInf)
      else Finite (ulp x * of_int n))"

text \<open>\<open>value >= c\<close>, \<open>value > c\<close>, \<open>value < c\<close> and \<open>value / c\<close> for a finite positive
  constant \<open>c\<close> of the source (or \<open>0\<close> in the comparisons). Every comparison with
  \<open>NaN\<close> is false.\<close>

fun js_ge :: "jsnum \<Rightarrow> real \<Rightarrow> bool" where
  "js_ge (Finite x) c = (x \<ge> c)"
| "js_ge NaN c = False"
| "js_ge PosInf c = True"
| "js_ge NegInf c = False"

fun js_gt :: "jsnum \<Rightarrow> real \<Rightarrow> bool" where
  "js_gt (Finite x) c = (x > c)"
| "js_gt NaN c = False"
| "js_gt PosInf c = True"
| "js_gt NegInf c = False"

fun js_lt :: "jsnum \<Rightarrow> real \<Rightarrow> bool" where
  "js_lt (Finite x) c = (x < c)"
| "js_lt NaN c = False"
| "js_lt PosInf c = False"
| "js_lt NegInf c = True"

fun js_div :: "jsnum \<Rightarrow> real \<Rightarrow> jsnum" where
  "js_div (Finite x) c = toDouble (x / c)"
| "js_div NaN c = NaN"
| "js_div PosInf c = PosInf"
| "js_div NegInf c = NegInf"

subsection \<open>The two built-in renderers the formatter calls\<close>

text \<open>The integer nearest to a non-negative \<open>x\<close>, the larger one of two equally near.\<close>

definition roundHalfUp :: "real \<Rightarrow> int" where
  "roundHalfUp x = \<lfloor>x + 1 / 2\<rfloor>"

text \<open>A non-negative value in fixed notation with two fraction digits.\<close>

definition fixed2 :: "real \<Rightarrow> string" where
  "fixed2 x =
     (let n = roundHalfUp (x * 100) in
      decimal (n div 100) @ ''.'' @ [digit (n mod 100 div 10), digit (n mod 10)])"

text \<open>
  \<open>Number::toString\<close> of a double of at least \<open>10^21\<close> (an integer with \<open>n\<close> digits): the
  shortest digit string that reads back as the same double. For \<open>k = 1, 2, ...\<close> digits
  the two \<open>k\<close>-digit numbers around the value, scaled by \<open>10^(n-k)\<close>, are tried; the first
  \<open>k\<close> at which one of them rounds to the double ends the search, with the nearer of
  the two when both do (the even one when equally near). Seventeen digits identify any
  double. The digits are printed without trailing zeros, with a point after the first
  one, followed by the decimal exponent.
\<close>

definition stripZeros :: "string \<Rightarrow> string" where
  "stripZeros ds = rev (dropWhile (\<lambda>c. c = CHR ''0'') (rev ds))"

fun shortest :: "nat \<Rightarrow> nat \<Rightarrow> nat \<Rightarrow> real \<Rightarrow> int \<times> nat" where
  "shortest 0 k n x = (\<lfloor>x\<rfloor>, n)"
| "shortest (Suc fuel) k n x =
     (let scale = 10 ^ (n - k);
          lo = \<lfloor>x / scale\<rfloor>;
          hi = lo + 1;
          okLo = (toDouble (of_int lo * scale) = Finite x);
          okHi = (toDouble (of_int hi * scale) = Finite x);
          dLo = x - of_int lo * scale;
          dHi = of_int hi * scale - x
      in if okLo \<and> okHi then
           (if dLo < dHi then (lo, k) else if dHi < dLo then (hi, k)
            else if even lo then (lo, k) else (hi, k))
         else if okLo then (lo, k)
         else if okHi then (hi, k)
         else shortest fuel (Suc k) n x)"

definition numberToString :: "real \<Rightarrow> string" where
  "numberToString x =
     (let n = length (digits \<lfloor>x\<rfloor>);
          (s, k) = shortest 17 1 n x;
          ds = digits s;
          sig = stripZeros ds
      in take 1 sig @ (if length sig > 1 then ''.'' @ drop 1 sig else []) @
         ''e+'' @ decimal (int n - 1 + (int (length ds) - int k)))"

text \<open>
  \<open>Number.prototype.toFixed(2)\<close>: a non-finite receiver gives its name; otherwise the
  sign is split off, and the magnitude is printed in fixed notation below \<open>10^21\<close> and
  by \<open>Number::toString\<close> from there on.
\<close>

fun toFixed2 :: "jsnum \<Rightarrow> string" where
  "toFixed2 NaN = ''NaN''"
| "toFixed2 PosInf = ''Infinity''"
| "toFixed2 NegInf = ''-Infinity''"
| "toFixed2 (Finite x) =
     (if x < 0 then ''-'' else []) @
     (if \<bar>x\<bar> \<ge> 10 ^ 21 then numberToString \<bar>x\<bar> else fixed2 \<bar>x\<bar>)"

text \<open>Digits in groups of three, separated by commas; the argument and the result are
  in reverse order.\<close>

fun commas :: "string \<Rightarrow> string" where
  "commas (a # b # c # d # ds) = a # b # c # CHR '','' # commas (d # ds)"
| "commas ds = ds"

definition grouped :: "int \<Rightarrow> string" where
  "grouped n = rev (commas (rev (decimal n)))"

text \<open>The infinity sign, as the three bytes of its UTF-8 encoding.\<close>

definition infinitySign :: string where
  "infinitySign = [CHR 0xE2, CHR 0x88, CHR 0x9E]"

text \<open>
  \<open>Intl.NumberFormat('en-US', {style: 'currency', currency: 'USD',
  minimumFractionDigits: 2, maximumFractionDigits: 2}).format\<close>: an optional minus
  sign, the dollar sign, the grouped integer digits and two fraction digits; the
  locale's symbols for the non-finite values.
\<close>

fun intlCurrency :: "jsnum \<Rightarrow> string" where
  "intlCurrency NaN = ''$NaN''"
| "intlCurrency PosInf = ''$'' @ infinitySign"
| "intlCurrency NegInf = ''-$'' @ infinitySign"
| "intlCurrency (Finite x) =
     (let n = roundHalfUp (\<bar>x\<bar> * 100) in
      (if x < 0 then ''-'' else []) @ ''$'' @
      grouped (n div 100) @ ''.'' @ [digit (n mod 100 div 10), digit (n mod 10)])"

subsection \<open>The formatter functions\<close>

definition formatCurrency :: "jsnum \<Rightarrow> string" where
  "formatCurrency v = intlCurrency v"

definition formatLargeNumber :: "jsnum \<Rightarrow> string" where
  "formatLargeNumber v =
     (if js_ge v (10 ^ 12) then ''$'' @ toFixed2 (js_div v (10 ^ 12)) @ ''T''
      else if js_ge v (10 ^ 9) then ''$'' @ toFixed2 (js_div v (10 ^ 9)) @ ''B''
      else if js_ge v (10 ^ 6) then ''$'' @ toFixed2 (js_div v (10 ^ 6)) @ ''M''
      else formatCurrency v)"

definition getPriceChangeColor :: "jsnum \<Rightarrow> string" where
  "getPriceChangeColor change =
     (if js_gt change 0 then ''success.main''
      else if js_lt change 0 then ''error.main''
      else ''text.secondary'')"

text \<open>Whether a text occurs inside a string.\<close>

fun startsWith :: "string \<Rightarrow> string \<Rightarrow> bool" where
  "startsWith s [] = True"
| "startsWith [] (c # cs) = False"
| "startsWith (x # xs) (c # cs) = (x = c \<and> startsWith xs cs)"

fun contains :: "string \<Rightarrow> string \<Rightarrow> bool" where
  "contains [] t = startsWith [] t"
| "contains (x # xs) t = (startsWith (x # xs) t \<or> contains xs t)"

section \<open>Market data cache and refresh scheduler\<close>

text \<open>
  The options of the \<open>cryptoData\<close> query, in milliseconds: the defaults the query client
  is created with (index.tsx) and the \<open>refetchInterval\<close> the dashboard passes to
  \<open>useQuery\<close> (Dashboard.tsx).
\<close>

record options =
  retry :: nat
  retryDelay :: nat
  staleTime :: nat
  cacheTime :: nat
  refetchInterval :: nat

definition queryOptions :: options where
  "queryOptions =
     \<lparr>retry = 3, retryDelay = 1000, staleTime = 5 * 60 * 1000, cacheTime = 10 * 60 * 1000,
      refetchInterval = 30000\<rparr>"

text \<open>The cache entry of the data model, without the query identity, which is the key
  the entry is stored under.\<close>

datatype status = Idle | Loading | Success | Error

record 'a cache_entry =
  data :: "'a option"
  fetchedAt :: "nat option"
  status :: status
  retryCount :: nat
  lastError :: "string option"

definition emptyEntry :: "'a cache_entry" where
  "emptyEntry = \<lparr>data = None, fetchedAt = None, status = Idle, retryCount = 0, lastError = None\<rparr>"

text \<open>What the market data source answers to the attempts of one fetch: for the
  attempt with a given index, how long the answer takes and what it is.\<close>

datatype 'a outcome = Fetched 'a | Failure string

type_synonym 'a source = "nat \<Rightarrow> nat \<times> 'a outcome"

text \<open>
  Modelled from the spec: the retry policy of the Refresh Scheduler. The source holds the
  options only; the loop that applies them is in the query library and is not under
  src/. A fetch start marks the entry as loading with a retry count of zero. Each
  attempt that fails increments \<open>retryCount\<close> and records the error; the next attempt
  starts \<open>retryDelay\<close> after the failure; when the attempts are used up the entry gets
  \<open>status = Error\<close>. An attempt that succeeds stores the data and its time, resets
  \<open>retryCount\<close> and sets \<open>status = Success\<close>. The second component is the log of the
  attempts made, each with its start and end time.
\<close>

definition startFetch :: "'a cache_entry \<Rightarrow> 'a cache_entry" where
  "startFetch e = e\<lparr>status := Loading, retryCount := 0\<rparr>"

fun retryLoop ::
  "nat \<Rightarrow> nat \<Rightarrow> 'a source \<Rightarrow> nat \<Rightarrow> nat \<Rightarrow> 'a cache_entry \<Rightarrow> 'a cache_entry \<times> (nat \<times> nat) list"
where
  "retryLoop 0 delay src i t e = (e\<lparr>status := Error\<rparr>, [])"
| "retryLoop (Suc left) delay src i t e =
     (case src i of
        (latency, Fetched d) \<Rightarrow>
          (e\<lparr>data := Some d, fetchedAt := Some (t + latency), status := Success,
             retryCount := 0\<rparr>,
           [(t, t + latency)])
      | (latency, Failure err) \<Rightarrow>
          (let (e', log) =
                 retryLoop left delay src (Suc i) (t + latency + delay)
                   (e\<lparr>retryCount := retryCount e + 1, lastError := Some err\<rparr>)
           in (e', (t, t + latency) # log)))"

definition fetch ::
  "options \<Rightarrow> 'a source \<Rightarrow> nat \<Rightarrow> 'a cache_entry \<Rightarrow> 'a cache_entry \<times> (nat \<times> nat) list"
where
  "fetch opts src t e = retryLoop (retry opts) (retryDelay opts) src 0 t (startFetch e)"

text \<open>
  Modelled from the spec: the Market Data Cache and the triggers of the Refresh
  Scheduler for one query identity. The source only calls \<open>useQuery\<close> and \<open>refetch\<close>; the
  cache behind them is in the query library and is not under src/. Besides the entry,
  the state of a query identity holds the invalidation mark, the number of subscribers,
  the number of fetches in flight, the number of fetches issued so far, the start time of
  the latest fetch, the time the periodic timer fires next, and the time the last
  subscriber left.
\<close>

record 'a query =
  entry :: "'a cache_entry option"
  invalidated :: bool
  subscribers :: nat
  inflight :: nat
  issued :: nat
  startedAt :: nat
  timer :: "nat option"
  idleSince :: "nat option"

definition emptyQuery :: "'a query" where
  "emptyQuery =
     \<lparr>entry = None, invalidated = False, subscribers = 0, inflight = 0, issued = 0,
      startedAt = 0, timer = None, idleSince = None\<rparr>"

text \<open>The dedup rule: a request while a fetch is in flight joins that fetch.\<close>

definition requestFetch :: "nat \<Rightarrow> 'a query \<Rightarrow> 'a query" where
  "requestFetch now q =
     (if inflight q > 0 then q
      else q\<lparr>entry := Some (startFetch (case entry q of None \<Rightarrow> emptyEntry | Some e \<Rightarrow> e)),
             invalidated := False, inflight := inflight q + 1, issued := issued q + 1,
             startedAt := now\<rparr>)"

text \<open>The staleness check of a new subscription: no entry, an invalidated entry, an
  entry without a fetch time, or one older than the staleness threshold.\<close>

definition isStale :: "options \<Rightarrow> nat \<Rightarrow> 'a query \<Rightarrow> bool" where
  "isStale opts now q =
     (case entry q of
        None \<Rightarrow> True
      | Some e \<Rightarrow>
          invalidated q \<or>
          (case fetchedAt e of None \<Rightarrow> True | Some t \<Rightarrow> now - t > staleTime opts))"

text \<open>
  Modelled from the spec: the completion of a fetch, which is in the query library and
  not under src/. The fetch in flight runs its attempts from its start time against the answers of the
  data source; the result is the entry it leaves and the time its last attempt ended.
\<close>

definition finishedAt :: "nat \<Rightarrow> (nat \<times> nat) list \<Rightarrow> nat" where
  "finishedAt started attempts =
     (case attempts of [] \<Rightarrow> started | _ # _ \<Rightarrow> snd (last attempts))"

definition settled :: "options \<Rightarrow> 'a source \<Rightarrow> 'a query \<Rightarrow> 'a cache_entry \<times> nat" where
  "settled opts src q =
     (case retryLoop (retry opts) (retryDelay opts) src 0 (startedAt q)
             (case entry q of None \<Rightarrow> emptyEntry | Some e \<Rightarrow> e) of
        (e, attempts) \<Rightarrow> (e, finishedAt (startedAt q) attempts))"

text \<open>
  Modelled from the spec: the events of a query identity (the library's side of
  \<open>useQuery\<close>, not under src/), each with the time it happens at where the time
  matters. A subscription arms the refresh timer for one interval unless it is armed
  already. The timer fires at the time it is armed for, while a subscriber is mounted: it
  is spent, and a fetch is requested without a look at the age of the data. When a
  fetch has completed (in success or after the last failed attempt) and a subscriber is
  still mounted, the result is applied and the timer is armed again, one interval after
  the completion; with no subscriber left the result is dropped and the timer stays off.
  The last subscriber to leave cancels the timer.
\<close>

datatype 'a event =
    GetOrSubscribe nat
  | Unsubscribe nat
  | Invalidate
  | RefreshNow nat
  | Tick nat
  | Settle "'a source"
  | Evict nat

fun step :: "options \<Rightarrow> 'a event \<Rightarrow> 'a query \<Rightarrow> 'a query" where
  "step opts (GetOrSubscribe now) q =
     (let q1 = q\<lparr>subscribers := subscribers q + 1, idleSince := None,
                  timer := (case timer q of None \<Rightarrow> Some (now + refetchInterval opts)
                            | Some t \<Rightarrow> Some t)\<rparr>
      in if isStale opts now q then requestFetch now q1 else q1)"
| "step opts (Unsubscribe now) q =
     (if subscribers q \<le> 1
      then q\<lparr>subscribers := 0, timer := None, idleSince := Some now\<rparr>
      else q\<lparr>subscribers := subscribers q - 1\<rparr>)"
| "step opts Invalidate q = q\<lparr>invalidated := True\<rparr>"
| "step opts (RefreshNow now) q = requestFetch now q"
| "step opts (Tick now) q =
     (if timer q = Some now \<and> subscribers q > 0
      then requestFetch now (q\<lparr>timer := None\<rparr>)
      else q)"
| "step opts (Settle src) q =
     (if inflight q = 0 then q
      else
        (let q1 = q\<lparr>inflight := inflight q - 1\<rparr> in
         if subscribers q = 0 then q1
         else
           (case settled opts src q of
              (e, finished) \<Rightarrow>
                q1\<lparr>entry := Some e, timer := Some (finished + refetchInterval opts)\<rparr>)))"
| "step opts (Evict now) q =
     (case idleSince q of
        None \<Rightarrow> q
      | Some t \<Rightarrow>
          if subscribers q = 0 \<and> now - t \<ge> cacheTime opts
          then q\<lparr>entry := None, invalidated := False\<rparr>
          else q)"

text \<open>The cache: a state for every query identity; an event concerns one identity.\<close>

definition dispatch :: "options \<Rightarrow> ('k \<Rightarrow> 'a query) \<Rightarrow> 'k \<times> 'a event \<Rightarrow> ('k \<Rightarrow> 'a query)" where
  "dispatch opts c kev = (case kev of (k, ev) \<Rightarrow> c(k := step opts ev (c k)))"

definition run :: "options \<Rightarrow> ('k \<times> 'a event) list \<Rightarrow> ('k \<Rightarrow> 'a query) \<Rightarrow> ('k \<Rightarrow> 'a query)" where
  "run opts evs c = foldl (dispatch opts) c evs"

definition emptyCache :: "'k \<Rightarrow> 'a query" where
  "emptyCache = (\<lambda>k. emptyQuery)"

text \<open>Modelled from the spec: rounds of the periodic refresh. The timer fires at the time it is armed for, the
  fetch it starts gets the answers of the next source and completes, and so on; with the
  timer off nothing happens.\<close>

fun rounds :: "options \<Rightarrow> nat \<Rightarrow> (nat \<Rightarrow> 'a source) \<Rightarrow> 'a query \<Rightarrow> 'a query" where
  "rounds opts 0 srcs q = q"
| "rounds opts (Suc n) srcs q =
     (case timer q of
        None \<Rightarrow> q
      | Some t \<Rightarrow>
          rounds opts n (\<lambda>i. srcs (Suc i)) (step opts (Settle (srcs 0)) (step opts (Tick t) q)))"

definition failing :: "'a source \<Rightarrow> nat \<Rightarrow> bool" where
  "failing src i = (case snd (src i) of Failure err \<Rightarrow> True | Fetched d \<Rightarrow> False)"

subsection \<open>The query of the dashboard\<close>

text \<open>The records of the dashboard (interface \<open>CryptoData\<close>) and its query function, which
  waits one second and returns the same five records at every attempt. A literal with a
  fraction denotes the double nearest to it.\<close>

record cryptoData =
  symbol :: string
  name :: string
  price :: jsnum
  change24h :: jsnum
  volume :: jsnum
  marketCap :: jsnum

definition mockData :: "cryptoData list" where
  "mockData =
     [\<lparr>symbol = ''BTC'', name = ''Bitcoin'', price = Finite 67500, change24h = toDouble 2.4,
       volume = Finite 28000000000, marketCap = Finite 1320000000000\<rparr>,
      \<lparr>symbol = ''ETH'', name = ''Ethereum'', price = Finite 4350, change24h = toDouble 3.1,
       volume = Finite 15000000000, marketCap = Finite 523000000000\<rparr>,
      \<lparr>symbol = ''UNI'', name = ''Uniswap'', price = toDouble 11.47, change24h = toDouble 8.7,
       volume = Finite 245000000, marketCap = Finite 8900000000\<rparr>,
      \<lparr>symbol = ''ADA'', name = ''Cardano'', price = toDouble 0.52, change24h = toDouble (-1.2),
       volume = Finite 180000000, marketCap = Finite 18500000000\<rparr>,
      \<lparr>symbol = ''TAO'', name = ''Bittensor'', price = toDouble 425.30, change24h = toDouble 15.8,
       volume = Finite 89000000, marketCap = Finite 3200000000\<rparr>]"

definition queryFn :: "cryptoData list source" where
  "queryFn = (\<lambda>i. (1000, Fetched mockData))"

text \<open>A cache that already holds the five records, fetched at time \<open>0\<close>, with no
  subscriber yet.\<close>

definition seeded :: "cryptoData list query" where
  "seeded =
     emptyQuery\<lparr>entry := Some \<lparr>data = Some mockData, fetchedAt = Some 0, status = Success,
                               retryCount = 0, lastError = None\<rparr>\<rparr>"

subsection \<open>Session consistency\<close>

text \<open>The in-memory flag agrees with what the mount effect would read from the
  persisted storage.\<close>

definition consistent :: "session \<Rightarrow> bool" where
  "consistent s = (isAuthenticated s = truthy (auth_token s))"

section \<open>Properties of the session store and the view router\<close>

lemma resolve_unauth: "resolve False loc = (LoginPath, LoginScreen)"
  by (cases loc) (simp_all add: resolve.simps)

lemma resolve_auth: "resolve True loc = (DashboardPath, DashboardScreen)"
  by (cases loc) (simp_all add: resolve.simps)

lemma view_cases:
  "view s loc =
     (if isAuthenticated s then (DashboardPath, DashboardScreen) else (LoginPath, LoginScreen))"
  by (simp add: view_def resolve_unauth resolve_auth)

text \<open>
  Claim C4. Submitting \<open>admin@cryptoanalyzer.com\<close> with \<open>admin123\<close> to the validator of
  \<open>onSubmit\<close> stores a token (the prefix \<open>mock-jwt-token-\<close> and the clock reading),
  marks the session authenticated, and the login location now leads to the dashboard.
  Submitting the same identifier with \<open>wrong\<close> sets the error text of an authentication
  failure and leaves the session, and with it the view at every location, unchanged.
\<close>

theorem onSubmit_scenario:
  "(let p' = onSubmit now \<lparr>email = ''admin@cryptoanalyzer.com'', password = ''admin123''\<rparr> p in
      auth_token (sess p') = Some (''mock-jwt-token-'' @ decimal now) \<and>
      isAuthenticated (sess p') \<and>
      view (sess p') LoginPath = (DashboardPath, DashboardScreen) \<and>
      error p' = []) \<and>
   (let p' = onSubmit now \<lparr>email = ''admin@cryptoanalyzer.com'', password = ''wrong''\<rparr> p in
      sess p' = sess p \<and>
      error p' = ''Invalid email or password'' \<and>
      view (sess p') loc = view (sess p) loc \<and>
      (\<not> isAuthenticated (sess p) \<longrightarrow> view (sess p') LoginPath = (LoginPath, LoginScreen)))"
  by (simp add: onSubmit_def Let_def handleLogin_def view_cases)

theorem onSubmit_scenario_witness:
  "\<not> isAuthenticated (sess \<lparr>sess = initial None, loading = False, error = [], toasts = []\<rparr>) \<and>
   view (sess (onSubmit 5 \<lparr>email = ''admin@cryptoanalyzer.com'', password = ''wrong''\<rparr>
      \<lparr>sess = initial None, loading = False, error = [], toasts = []\<rparr>)) LoginPath
     = (LoginPath, LoginScreen) \<and>
   auth_token (sess (onSubmit 5 \<lparr>email = ''admin@cryptoanalyzer.com'', password = ''admin123''\<rparr>
      \<lparr>sess = initial None, loading = False, error = [], toasts = []\<rparr>))
     = Some ''mock-jwt-token-5''"
proof -
  have d: "decimal 5 = ''5''" by code_simp
  show ?thesis
    using onSubmit_scenario
      [of 5 "\<lparr>sess = initial None, loading = False, error = [], toasts = []\<rparr>" LoginPath]
    by (auto simp add: initial_def Let_def d)
qed

text \<open>
  Claim C5. The view is a function of the session's authenticated flag alone.
  Unauthenticated, the dashboard route redirects to the login path and the login screen
  renders; authenticated, the login route redirects to the dashboard path and the
  dashboard renders; an unknown path redirects to the root, and the root redirects to
  the dashboard when authenticated and to the login path otherwise.
\<close>

theorem view_router_rules:
  "(\<not> isAuthenticated s \<longrightarrow>
      route (isAuthenticated s) DashboardPath = Navigate LoginPath \<and>
      view s DashboardPath = (LoginPath, LoginScreen)) \<and>
   (isAuthenticated s \<longrightarrow>
      route (isAuthenticated s) LoginPath = Navigate DashboardPath \<and>
      view s LoginPath = (DashboardPath, DashboardScreen)) \<and>
   route (isAuthenticated s) OtherPath = Navigate RootPath \<and>
   view s OtherPath = view s RootPath \<and>
   route (isAuthenticated s) RootPath =
     Navigate (if isAuthenticated s then DashboardPath else LoginPath) \<and>
   view s RootPath = (if isAuthenticated s then view s DashboardPath else view s LoginPath) \<and>
   (isAuthenticated s' = isAuthenticated s \<longrightarrow> view s' loc = view s loc)"
  by (simp add: view_cases)

theorem view_router_rules_witness:
  "\<not> isAuthenticated (initial None) \<and>
   view (initial None) DashboardPath = (LoginPath, LoginScreen) \<and>
   isAuthenticated (handleLogin ''t'' (initial None)) \<and>
   view (handleLogin ''t'' (initial None)) LoginPath = (DashboardPath, DashboardScreen) \<and>
   isAuthenticated (initial (Some ''t'')) = isAuthenticated (initial None) \<and>
   view (initial (Some ''t'')) OtherPath = view (initial None) OtherPath"
  using view_router_rules [of "initial None" "initial (Some ''t'')" OtherPath]
    view_router_rules [of "handleLogin ''t'' (initial None)" "initial None" LoginPath]
  by (simp add: initial_def handleLogin_def)

text \<open>
  Claim C9. \<open>handleLogout\<close> removes the persisted token and clears the flag from every
  state; applied to a session that is already absent it changes nothing, and applied
  twice it equals one application. Afterwards, and after a reload too, every location
  leads to the login screen.
\<close>

theorem handleLogout_idempotent:
  "auth_token (handleLogout s) = None \<and>
   \<not> isAuthenticated (handleLogout s) \<and>
   handleLogout (handleLogout s) = handleLogout s \<and>
   (auth_token s = None \<and> \<not> isAuthenticated s \<longrightarrow> handleLogout s = s) \<and>
   view (handleLogout s) loc = (LoginPath, LoginScreen) \<and>
   view (reload (handleLogout s)) loc = (LoginPath, LoginScreen)"
  by (cases s)
    (simp add: handleLogout_def view_cases reload_def checkAuth_def initial_def truthy_def)

theorem handleLogout_idempotent_witness:
  "auth_token (initial None) = None \<and> \<not> isAuthenticated (initial None) \<and>
   handleLogout (initial None) = initial None"
  using handleLogout_idempotent [of "initial None"]
  by (simp add: initial_def)

text \<open>
  Claim C10. \<open>handleLogin\<close> with the empty string stores the empty string and marks the
  session authenticated, so the dashboard renders; the mount effect of the next page load
  reads the empty string as no token, so after a reload the session is unauthenticated.
  The flag and the persisted token disagree after such a login and agree again after the
  reload.
\<close>

theorem handleLogin_empty_token:
  "isAuthenticated (handleLogin [] s) \<and>
   view (handleLogin [] s) DashboardPath = (DashboardPath, DashboardScreen) \<and>
   auth_token (handleLogin [] s) = Some [] \<and>
   \<not> isAuthenticated (reload (handleLogin [] s)) \<and>
   view (reload (handleLogin [] s)) DashboardPath = (LoginPath, LoginScreen) \<and>
   \<not> consistent (handleLogin [] s) \<and>
   consistent (reload (handleLogin [] s))"
  by (simp add: handleLogin_def view_cases reload_def checkAuth_def initial_def truthy_def
      consistent_def)

section \<open>Properties of the formatter\<close>

text \<open>
  At positive infinity \<open>formatLargeNumber\<close> returns a string with the text \<open>Infinity\<close>,
  and at \<open>NaN\<close> \<open>formatCurrency\<close> returns a string with the text \<open>NaN\<close>: neither rejects
  its input.
\<close>

theorem formatter_nonfinite_counterexample:
  "contains (formatLargeNumber PosInf) ''Infinity'' \<and> contains (formatCurrency NaN) ''NaN''"
  by (simp add: formatLargeNumber_def formatCurrency_def)

text \<open>
  Claim C1, as the code has it. The formatter has no failure outcome: for a non-finite
  input both functions return the text the built-in renderers produce. Positive infinity
  passes the first threshold of \<open>formatLargeNumber\<close> and is rendered in the \<open>T\<close> tier;
  \<open>NaN\<close> and negative infinity fail every threshold and are rendered by
  \<open>formatCurrency\<close>, which prints the locale's symbol after the dollar sign.
\<close>

theorem formatter_nonfinite_rendered:
  "formatLargeNumber PosInf = ''$InfinityT'' \<and>
   formatLargeNumber NaN = formatCurrency NaN \<and>
   formatLargeNumber NegInf = formatCurrency NegInf \<and>
   formatCurrency NaN = ''$NaN'' \<and>
   formatCurrency PosInf = ''$'' @ infinitySign \<and>
   formatCurrency NegInf = ''-$'' @ infinitySign"
  by (simp add: formatLargeNumber_def formatCurrency_def)

text \<open>The rounding of \<open>fixed2\<close> is to the nearest hundredth.\<close>

lemma roundHalfUp_nearest:
  "\<bar>real_of_int (roundHalfUp (x * 100)) / 100 - x\<bar> \<le> 1 / 200"
proof -
  define m where "m = \<lfloor>x * 100 + 1 / 2\<rfloor>"
  have r: "real_of_int (roundHalfUp (x * 100)) = of_int m"
    by (simp add: roundHalfUp_def m_def)
  have lo: "of_int m \<le> x * 100 + 1 / 2" unfolding m_def by (rule of_int_floor_le)
  have hi: "x * 100 + 1 / 2 < of_int m + 1" unfolding m_def by linarith
  have "\<bar>of_int m - x * 100\<bar> \<le> 1 / 2" using lo hi by linarith
  then have "\<bar>(of_int m - x * 100) / 100\<bar> \<le> (1 / 2) / 100"
    by (simp only: abs_divide) (simp add: divide_right_mono)
  then show ?thesis unfolding r by (simp add: diff_divide_distrib)
qed

text \<open>
  The exponent search is right: for a magnitude from 1 up to \<open>2^2048\<close> it returns the
  \<open>j\<close> with \<open>2^j \<le> a < 2^(j+1)\<close>. So a value with such a \<open>j\<close> of at most 1022 is rounded
  to a multiple of \<open>2^(j-52)\<close>, and rounding keeps a value between 1 and a power of two
  between them.
\<close>

lemma reduce_inv:
  "pe \<le> a \<Longrightarrow> a < pe * 2 ^ (m * 2 ^ k) \<Longrightarrow> 0 < pe \<Longrightarrow>
   reduce k (int m) (2 ^ m) a (pe, e) = (pe', e') \<Longrightarrow>
   \<exists>j. e' = e + int j \<and> pe' = pe * 2 ^ j \<and> pe' \<le> a \<and> a < pe' * 2 ^ m"
proof (induction k arbitrary: m pe e pe' e')
  case 0
  then show ?case by (intro exI [of _ 0]) simp
next
  case (Suc k)
  show ?case
  proof (cases "a < pe * 2 ^ m")
    case True
    with Suc.prems show ?thesis by (intro exI [of _ 0]) simp
  next
    case False
    obtain p1 e1 where r: "reduce k (int (2 * m)) (2 ^ (2 * m)) a (pe, e) = (p1, e1)"
      by (cases "reduce k (int (2 * m)) (2 ^ (2 * m)) a (pe, e)")
    have pp: "(2::real) ^ m * 2 ^ m = 2 ^ (2 * m)"
      by (simp add: power_add [symmetric] mult_2)
    have bound: "a < pe * 2 ^ (2 * m * 2 ^ k)"
      using Suc.prems(2) by (simp add: mult.assoc mult.left_commute mult.commute)
    from Suc.IH [OF Suc.prems(1) bound Suc.prems(3) r]
    obtain j1 where j1: "e1 = e + int j1" "p1 = pe * 2 ^ j1" "p1 \<le> a" "a < p1 * 2 ^ (2 * m)"
      by blast
    have res: "(pe', e') = (if p1 * 2 ^ m \<le> a then (p1 * 2 ^ m, e1 + int m) else (p1, e1))"
      using Suc.prems(4) False r by (simp add: pp)
    show ?thesis
    proof (cases "p1 * 2 ^ m \<le> a")
      case True
      with res have p': "pe' = p1 * 2 ^ m" and e': "e' = e1 + int m" by simp_all
      have "pe' = pe * 2 ^ (j1 + m)" using j1(2) p' by (simp add: power_add)
      moreover have "pe' \<le> a" using True p' by simp
      moreover have "a < pe' * 2 ^ m"
        using j1(4) p' pp by (simp add: mult.assoc)
      moreover have "e' = e + int (j1 + m)" using e' j1(1) by simp
      ultimately show ?thesis by blast
    next
      case False
      with res have "pe' = p1" "e' = e1" by simp_all
      with j1 False show ?thesis by (intro exI [of _ j1]) simp
    qed
  qed
qed

lemma exponent_ge1:
  assumes "1 \<le> \<bar>x\<bar>" "\<bar>x\<bar> < 2 ^ 2048"
  shows "\<exists>j. exponent x = int j \<and> 2 ^ j \<le> \<bar>x\<bar> \<and> \<bar>x\<bar> < 2 ^ Suc j"
proof -
  obtain pe' e' where r: "reduce 11 (int 1) (2 ^ 1) \<bar>x\<bar> (1, 0) = (pe', e')"
    by (cases "reduce 11 (int 1) (2 ^ 1) \<bar>x\<bar> (1, 0)")
  have b: "\<bar>x\<bar> < 1 * 2 ^ (1 * 2 ^ 11)" using assms(2) by simp
  from reduce_inv [OF assms(1) b _ r]
  obtain j where j: "e' = 0 + int j" "pe' = 1 * 2 ^ j" "pe' \<le> \<bar>x\<bar>" "\<bar>x\<bar> < pe' * 2 ^ 1"
    by auto
  have "exponent x = int j" using r j(1) assms(1) by (simp add: exponent_def)
  moreover have "2 ^ j \<le> \<bar>x\<bar>" using j(2,3) by simp
  moreover have "\<bar>x\<bar> < 2 ^ Suc j" using j(2,4) by simp
  ultimately show ?thesis by blast
qed

lemma exponent_unique:
  assumes "2 ^ j \<le> \<bar>x\<bar>" "\<bar>x\<bar> < 2 ^ Suc j" "j \<le> 1022"
  shows "exponent x = int j"
proof -
  have one: "1 \<le> \<bar>x\<bar>" using assms(1) one_le_power [of "2::real" j] by linarith
  have "(2::real) ^ Suc j \<le> 2 ^ 2048" using assms(3) by (intro power_increasing) simp_all
  then have big: "\<bar>x\<bar> < 2 ^ 2048" using assms(2) by linarith
  from exponent_ge1 [OF one big]
  obtain i where i: "exponent x = int i" "2 ^ i \<le> \<bar>x\<bar>" "\<bar>x\<bar> < 2 ^ Suc i" by blast
  have "(2::real) ^ j < 2 ^ Suc i" using assms(1) i(3) by linarith
  then have "j < Suc i" by (simp only: power_strict_increasing_iff one_less_numeral_iff semiring_norm)
  moreover have "(2::real) ^ i < 2 ^ Suc j" using assms(2) i(2) by linarith
  then have "i < Suc j" by (simp only: power_strict_increasing_iff one_less_numeral_iff semiring_norm)
  ultimately show ?thesis using i(1) by simp
qed

lemma toDouble_eq:
  assumes "2 ^ j \<le> \<bar>x\<bar>" "\<bar>x\<bar> < 2 ^ Suc j" "j \<le> 1022"
  shows "toDouble x = Finite (2 ^ j / 2 ^ 52 * of_int (roundHalfEven (x / (2 ^ j / 2 ^ 52))))"
proof -
  have e: "exponent x = int j" by (rule exponent_unique [OF assms])
  have u: "ulp x = 2 ^ j / 2 ^ 52"
    by (simp add: ulp_def e power_int_diff)
  show ?thesis using assms(3) by (simp add: toDouble_def Let_def u e)
qed

lemma roundHalfEven_ge: "of_int l \<le> z \<Longrightarrow> l \<le> roundHalfEven z"
proof -
  assume "of_int l \<le> z"
  then have "l \<le> \<lfloor>z\<rfloor>" by (simp add: le_floor_iff)
  then show ?thesis by (simp add: roundHalfEven_def Let_def)
qed

lemma roundHalfEven_le: "z \<le> of_int h \<Longrightarrow> roundHalfEven z \<le> h"
proof -
  assume zh: "z \<le> of_int h"
  then have fh: "\<lfloor>z\<rfloor> \<le> h" by (simp add: floor_le_iff)
  show ?thesis
  proof (cases "\<lfloor>z\<rfloor> = h")
    case True
    have "of_int \<lfloor>z\<rfloor> \<le> z" by (rule of_int_floor_le)
    with True zh have "z - of_int \<lfloor>z\<rfloor> = 0" by simp
    then show ?thesis using True by (simp add: roundHalfEven_def Let_def)
  next
    case False
    with fh have "\<lfloor>z\<rfloor> + 1 \<le> h" by simp
    then show ?thesis by (simp add: roundHalfEven_def Let_def)
  qed
qed

lemma toDouble_range:
  assumes "1 \<le> y" "y \<le> 2 ^ k" "k \<le> 1022"
  shows "\<exists>q. toDouble y = Finite q \<and> 1 \<le> q \<and> q \<le> 2 ^ k"
proof -
  have ay: "\<bar>y\<bar> = y" using assms(1) by simp
  have "(2::real) ^ k < 2 ^ 2048" using assms(3) by (intro power_strict_increasing) simp_all
  then have big: "\<bar>y\<bar> < 2 ^ 2048" using assms(2) ay by linarith
  from exponent_ge1 [of y] assms(1) big ay
  obtain j where j: "2 ^ j \<le> y" "y < 2 ^ Suc j" by auto
  have "(2::real) ^ j < 2 ^ Suc k" using j(1) assms(2) by (simp add: order_le_less_trans)
  then have jk: "j \<le> k"
    by (simp only: power_strict_increasing_iff one_less_numeral_iff semiring_norm)
  then have j1022: "j \<le> 1022" using assms(3) by simp
  define u :: real where "u = 2 ^ j / 2 ^ 52"
  define n where "n = roundHalfEven (y / u)"
  have upos: "0 < u" by (simp add: u_def)
  have td: "toDouble y = Finite (u * of_int n)"
    using toDouble_eq [of j y] j j1022 ay by (simp add: u_def n_def)
  have "of_int (2 ^ 52) \<le> y / u"
    using j(1) by (simp add: u_def field_simps)
  then have lo: "2 ^ 52 \<le> n" unfolding n_def by (rule roundHalfEven_ge)
  have "y / u \<le> of_int (2 ^ (k - j) * 2 ^ 52)"
  proof -
    have "y / u = y * 2 ^ 52 / 2 ^ j" by (simp add: u_def)
    also have "\<dots> \<le> 2 ^ k * 2 ^ 52 / 2 ^ j" using assms(2) by (simp add: divide_right_mono)
    also have "\<dots> = 2 ^ (k - j) * 2 ^ 52" using jk by (simp add: power_diff)
    finally show ?thesis by simp
  qed
  then have hi: "n \<le> 2 ^ (k - j) * 2 ^ 52" unfolding n_def by (rule roundHalfEven_le)
  have lo': "(2::real) ^ 52 \<le> of_int n"
  proof -
    have "(of_int (2 ^ 52) :: real) \<le> of_int n" using lo by (simp only: of_int_le_iff)
    then show ?thesis by simp
  qed
  have "u * 2 ^ 52 \<le> u * of_int n"
    using lo' upos by (simp only: mult_le_cancel_left_pos)
  moreover have "u * 2 ^ 52 = 2 ^ j" by (simp add: u_def)
  moreover have "(1::real) \<le> 2 ^ j" by (rule one_le_power) simp
  ultimately have q1: "1 \<le> u * of_int n" by linarith
  have "u * of_int n \<le> u * (2 ^ (k - j) * 2 ^ 52)"
  proof -
    have "(of_int n :: real) \<le> of_int (2 ^ (k - j) * 2 ^ 52)" using hi by (simp only: of_int_le_iff)
    then show ?thesis using upos by (simp add: mult_left_mono)
  qed
  also have "\<dots> = 2 ^ k" using jk by (simp add: u_def power_diff)
  finally have q2: "u * of_int n \<le> 2 ^ k" .
  from td q1 q2 show ?thesis by blast
qed


lemma toDouble_nonneg:
  assumes "0 \<le> y" "toDouble y = Finite q"
  shows "0 \<le> q"
proof -
  have u: "0 < ulp y" by (simp add: ulp_def)
  then have "of_int 0 \<le> y / ulp y" using assms(1) by simp
  then have "0 \<le> roundHalfEven (y / ulp y)" by (rule roundHalfEven_ge)
  then have "0 \<le> ulp y * of_int (roundHalfEven (y / ulp y))" using u by simp
  with assms(2) show ?thesis
    by (simp add: toDouble_def Let_def split: if_splits)
qed

lemma tier_two_decimals:
  assumes "c \<le> v" "v \<le> 2 ^ k * c" "0 < c" "k \<le> 69"
  shows "\<exists>q. js_div (Finite v) c = Finite q \<and> 1 \<le> q \<and> q \<le> 2 ^ k \<and>
    toFixed2 (js_div (Finite v) c) = fixed2 q"
proof -
  have "1 \<le> v / c" using assms(1,3) by (simp add: le_divide_eq)
  moreover have "v / c \<le> 2 ^ k" using assms(2,3) by (simp add: divide_le_eq)
  moreover have "k \<le> 1022" using assms(4) by simp
  ultimately obtain q where q: "toDouble (v / c) = Finite q" "1 \<le> q" "q \<le> 2 ^ k"
    using toDouble_range by blast
  have "(2::real) ^ k \<le> 2 ^ 69" using assms(4) by (intro power_increasing) simp_all
  then have "q < 10 ^ 21" using q(3) by simp
  then show ?thesis using q by (intro exI [of _ q]) simp
qed

text \<open>
  The literal \<open>1e33\<close> denotes the double \<open>999999999999999945575230987042816\<close>. Its quotient
  by \<open>1e12\<close> rounds to the double \<open>10^21\<close>, which \<open>toFixed(2)\<close> prints in exponent notation;
  with two decimals it would read as the last string.
\<close>

theorem formatLargeNumber_tiers_counterexample:
  "toDouble (10 ^ 33) = Finite 999999999999999945575230987042816 \<and>
   formatLargeNumber (Finite 999999999999999945575230987042816) = ''$1e+21T'' \<and>
   ''$'' @ fixed2 (10 ^ 21) @ ''T'' = ''$1000000000000000000000.00T''"
  by code_simp

text \<open>
  Claim C2, as the code has it. For a finite \<open>v\<close> the tier is chosen by inclusive lower
  bounds from the top: from \<open>1e12\<close> the result is the dollar sign, the quotient by \<open>1e12\<close>
  and \<open>T\<close>; from \<open>1e9\<close> the same with \<open>1e9\<close> and \<open>B\<close>; from \<open>1e6\<close> the same with \<open>1e6\<close>
  and \<open>M\<close>; below \<open>1e6\<close> (so for every positive \<open>v < 1e6\<close>) the result is
  \<open>formatCurrency v\<close>. The quotient \<open>q\<close> is the double nearest to the exact quotient. In the
  \<open>B\<close> and \<open>M\<close> tiers it lies between 1 and 1024 and is printed with exactly two
  decimals; in the \<open>T\<close> tier it is printed with exactly two decimals as long as it is
  below \<open>1e21\<close>, which holds at least up to \<open>v = 2^69 * 1e12\<close>, and in exponent notation
  from \<open>1e21\<close> on.
\<close>

theorem formatLargeNumber_tiers:
  "(10 ^ 12 \<le> v \<and> v \<le> 2 ^ 69 * 10 ^ 12 \<longrightarrow>
      (\<exists>q. js_div (Finite v) (10 ^ 12) = Finite q \<and> 1 \<le> q \<and> q < 10 ^ 21 \<and>
           formatLargeNumber (Finite v) = ''$'' @ fixed2 q @ ''T'')) \<and>
   (10 ^ 12 \<le> v \<and> js_div (Finite v) (10 ^ 12) = Finite q \<and> q < 10 ^ 21 \<longrightarrow>
      formatLargeNumber (Finite v) = ''$'' @ fixed2 q @ ''T'') \<and>
   (10 ^ 12 \<le> v \<and> js_div (Finite v) (10 ^ 12) = Finite q \<and> 10 ^ 21 \<le> q \<longrightarrow>
      formatLargeNumber (Finite v) = ''$'' @ numberToString q @ ''T'') \<and>
   (10 ^ 9 \<le> v \<and> v < 10 ^ 12 \<longrightarrow>
      (\<exists>q. js_div (Finite v) (10 ^ 9) = Finite q \<and> 1 \<le> q \<and> q \<le> 1024 \<and>
           formatLargeNumber (Finite v) = ''$'' @ fixed2 q @ ''B'')) \<and>
   (10 ^ 6 \<le> v \<and> v < 10 ^ 9 \<longrightarrow>
      (\<exists>q. js_div (Finite v) (10 ^ 6) = Finite q \<and> 1 \<le> q \<and> q \<le> 1024 \<and>
           formatLargeNumber (Finite v) = ''$'' @ fixed2 q @ ''M'')) \<and>
   (v < 10 ^ 6 \<longrightarrow> formatLargeNumber (Finite v) = formatCurrency (Finite v))"
proof -
  have t1: "10 ^ 12 \<le> v \<and> v \<le> 2 ^ 69 * 10 ^ 12 \<longrightarrow>
      (\<exists>q. js_div (Finite v) (10 ^ 12) = Finite q \<and> 1 \<le> q \<and> q < 10 ^ 21 \<and>
           formatLargeNumber (Finite v) = ''$'' @ fixed2 q @ ''T'')"
  proof
    assume h: "10 ^ 12 \<le> v \<and> v \<le> 2 ^ 69 * 10 ^ 12"
    from tier_two_decimals [of "10 ^ 12" v 69] h
    obtain q where q: "js_div (Finite v) (10 ^ 12) = Finite q" "1 \<le> q" "q \<le> 2 ^ 69"
      "toFixed2 (js_div (Finite v) (10 ^ 12)) = fixed2 q" by auto
    have "q < 10 ^ 21" using q(3) by simp
    moreover have "formatLargeNumber (Finite v) = ''$'' @ fixed2 q @ ''T''"
      using h q(4) by (simp add: formatLargeNumber_def)
    ultimately show "\<exists>q. js_div (Finite v) (10 ^ 12) = Finite q \<and> 1 \<le> q \<and> q < 10 ^ 21 \<and>
           formatLargeNumber (Finite v) = ''$'' @ fixed2 q @ ''T''"
      using q(1,2) by blast
  qed
  have t2: "10 ^ 12 \<le> v \<and> js_div (Finite v) (10 ^ 12) = Finite q \<and> q < 10 ^ 21 \<longrightarrow>
      formatLargeNumber (Finite v) = ''$'' @ fixed2 q @ ''T''"
  proof
    assume h: "10 ^ 12 \<le> v \<and> js_div (Finite v) (10 ^ 12) = Finite q \<and> q < 10 ^ 21"
    then have "0 \<le> v / 10 ^ 12" by simp
    with h have "0 \<le> q" using toDouble_nonneg [of "v / 10 ^ 12" q] by simp
    with h show "formatLargeNumber (Finite v) = ''$'' @ fixed2 q @ ''T''"
      by (simp add: formatLargeNumber_def)
  qed
  have t3: "10 ^ 12 \<le> v \<and> js_div (Finite v) (10 ^ 12) = Finite q \<and> 10 ^ 21 \<le> q \<longrightarrow>
      formatLargeNumber (Finite v) = ''$'' @ numberToString q @ ''T''"
    by (simp add: formatLargeNumber_def)
  have b: "10 ^ 9 \<le> v \<and> v < 10 ^ 12 \<longrightarrow>
      (\<exists>q. js_div (Finite v) (10 ^ 9) = Finite q \<and> 1 \<le> q \<and> q \<le> 1024 \<and>
           formatLargeNumber (Finite v) = ''$'' @ fixed2 q @ ''B'')"
  proof
    assume h: "10 ^ 9 \<le> v \<and> v < 10 ^ 12"
    from tier_two_decimals [of "10 ^ 9" v 10] h
    obtain q where q: "js_div (Finite v) (10 ^ 9) = Finite q" "1 \<le> q" "q \<le> 2 ^ 10"
      "toFixed2 (js_div (Finite v) (10 ^ 9)) = fixed2 q" by auto
    have "formatLargeNumber (Finite v) = ''$'' @ fixed2 q @ ''B''"
      using h q(4) by (simp add: formatLargeNumber_def)
    then show "\<exists>q. js_div (Finite v) (10 ^ 9) = Finite q \<and> 1 \<le> q \<and> q \<le> 1024 \<and>
           formatLargeNumber (Finite v) = ''$'' @ fixed2 q @ ''B''"
      using q(1,2,3) by auto
  qed
  have m: "10 ^ 6 \<le> v \<and> v < 10 ^ 9 \<longrightarrow>
      (\<exists>q. js_div (Finite v) (10 ^ 6) = Finite q \<and> 1 \<le> q \<and> q \<le> 1024 \<and>
           formatLargeNumber (Finite v) = ''$'' @ fixed2 q @ ''M'')"
  proof
    assume h: "10 ^ 6 \<le> v \<and> v < 10 ^ 9"
    from tier_two_decimals [of "10 ^ 6" v 10] h
    obtain q where q: "js_div (Finite v) (10 ^ 6) = Finite q" "1 \<le> q" "q \<le> 2 ^ 10"
      "toFixed2 (js_div (Finite v) (10 ^ 6)) = fixed2 q" by auto
    have "formatLargeNumber (Finite v) = ''$'' @ fixed2 q @ ''M''"
      using h q(4) by (simp add: formatLargeNumber_def)
    then show "\<exists>q. js_div (Finite v) (10 ^ 6) = Finite q \<and> 1 \<le> q \<and> q \<le> 1024 \<and>
           formatLargeNumber (Finite v) = ''$'' @ fixed2 q @ ''M''"
      using q(1,2,3) by auto
  qed
  have c: "v < 10 ^ 6 \<longrightarrow> formatLargeNumber (Finite v) = formatCurrency (Finite v)"
    by (simp add: formatLargeNumber_def)
  from t1 t2 t3 b m c show ?thesis by blast
qed

theorem formatLargeNumber_tiers_witness:
  "formatLargeNumber (Finite 1320000000000) = ''$1.32T'' \<and>
   formatLargeNumber (Finite 1000000000000) = ''$1.00T'' \<and>
   formatLargeNumber (Finite 1255000000) = ''$1.25B'' \<and>
   formatLargeNumber (Finite 1005000) = ''$1.00M'' \<and>
   formatLargeNumber (Finite 999999) = formatCurrency (Finite 999999) \<and>
   formatLargeNumber (Finite 999999999999999945575230987042816) = ''$1e+21T'' \<and>
   formatLargeNumber (Finite 1800000000000000132619716698046464) = ''$1.8000000000000003e+21T''"
proof -
  have d1: "js_div (Finite 1320000000000) (10 ^ 12)
      = Finite (5944751508129055 / 4503599627370496)" by code_simp
  have f1: "fixed2 (5944751508129055 / 4503599627370496) = ''1.32''" by code_simp
  have d2: "js_div (Finite 1000000000000) (10 ^ 12) = Finite 1" by code_simp
  have f2: "fixed2 1 = ''1.00''" by code_simp
  have d3: "js_div (Finite 1255000000) (10 ^ 9)
      = Finite (1413004383087493 / 1125899906842624)" by code_simp
  have f3: "fixed2 (1413004383087493 / 1125899906842624) = ''1.25''" by code_simp
  have d4: "js_div (Finite 1005000) (10 ^ 6)
      = Finite (1131529406376837 / 1125899906842624)" by code_simp
  have f4: "fixed2 (1131529406376837 / 1125899906842624) = ''1.00''" by code_simp
  have d5: "js_div (Finite 999999999999999945575230987042816) (10 ^ 12) = Finite (10 ^ 21)"
    by code_simp
  have f5: "numberToString (10 ^ 21) = ''1e+21''" by code_simp
  have d6: "js_div (Finite 1800000000000000132619716698046464) (10 ^ 12)
      = Finite 1800000000000000262144" by code_simp
  have f6: "numberToString 1800000000000000262144 = ''1.8000000000000003e+21''" by code_simp
  have "formatLargeNumber (Finite 1320000000000)
      = ''$'' @ fixed2 (5944751508129055 / 4503599627370496) @ ''T''"
    using formatLargeNumber_tiers
      [of 1320000000000 "5944751508129055 / 4503599627370496"] d1
    by simp
  then have w1: "formatLargeNumber (Finite 1320000000000) = ''$1.32T''"
    by (simp only: f1) simp
  have "formatLargeNumber (Finite 1000000000000) = ''$'' @ fixed2 1 @ ''T''"
    using formatLargeNumber_tiers [of 1000000000000 1] d2 by simp
  then have w2: "formatLargeNumber (Finite 1000000000000) = ''$1.00T''"
    by (simp only: f2) simp
  obtain q3 where q3: "js_div (Finite 1255000000) (10 ^ 9) = Finite q3"
      "formatLargeNumber (Finite 1255000000) = ''$'' @ fixed2 q3 @ ''B''"
    using formatLargeNumber_tiers [of 1255000000 0] by auto
  from q3(1) d3 have "q3 = 1413004383087493 / 1125899906842624" by simp
  with q3(2) have w3: "formatLargeNumber (Finite 1255000000) = ''$1.25B''"
    by (simp only: f3) simp
  obtain q4 where q4: "js_div (Finite 1005000) (10 ^ 6) = Finite q4"
      "formatLargeNumber (Finite 1005000) = ''$'' @ fixed2 q4 @ ''M''"
    using formatLargeNumber_tiers [of 1005000 0] by auto
  from q4(1) d4 have "q4 = 1131529406376837 / 1125899906842624" by simp
  with q4(2) have w4: "formatLargeNumber (Finite 1005000) = ''$1.00M''"
    by (simp only: f4) simp
  have w5: "formatLargeNumber (Finite 999999) = formatCurrency (Finite 999999)"
    using formatLargeNumber_tiers [of 999999 0] by simp
  have "formatLargeNumber (Finite 999999999999999945575230987042816)
      = ''$'' @ numberToString (10 ^ 21) @ ''T''"
    using formatLargeNumber_tiers [of 999999999999999945575230987042816 "10 ^ 21"] d5
    by simp
  then have w6: "formatLargeNumber (Finite 999999999999999945575230987042816) = ''$1e+21T''"
    by (simp only: f5) simp
  have "formatLargeNumber (Finite 1800000000000000132619716698046464)
      = ''$'' @ numberToString 1800000000000000262144 @ ''T''"
    using formatLargeNumber_tiers
      [of 1800000000000000132619716698046464 1800000000000000262144] d6
    by simp
  then have w7: "formatLargeNumber (Finite 1800000000000000132619716698046464)
      = ''$1.8000000000000003e+21T''"
    by (simp only: f6) simp
  from w1 w2 w3 w4 w5 w6 w7 show ?thesis by blast
qed

text \<open>
  Claim C8. For a real \<open>x\<close>, \<open>getPriceChangeColor\<close> returns the colour of a rise
  (\<open>success.main\<close>) exactly when \<open>x > 0\<close>, the colour of a fall (\<open>error.main\<close>) exactly when
  \<open>x < 0\<close>, and the neutral colour (\<open>text.secondary\<close>) exactly when \<open>x = 0\<close>.
\<close>

theorem getPriceChangeColor_sign:
  "(getPriceChangeColor (Finite x) = ''success.main'' \<longleftrightarrow> x > 0) \<and>
   (getPriceChangeColor (Finite x) = ''error.main'' \<longleftrightarrow> x < 0) \<and>
   (getPriceChangeColor (Finite x) = ''text.secondary'' \<longleftrightarrow> x = 0)"
  by (auto simp add: getPriceChangeColor_def)

section \<open>Properties of the retry policy, the cache and the periodic refresh\<close>

lemma failingE:
  assumes "failing src i"
  obtains l err where "src i = (l, Failure err)"
  using assms by (cases "src i"; cases "snd (src i)") (auto simp: failing_def)

lemma retryLoop_all_fail:
  "(\<And>j. j < n \<Longrightarrow> failing src (i + j)) \<Longrightarrow>
   status (fst (retryLoop n d src i t e)) = Error \<and>
   retryCount (fst (retryLoop n d src i t e)) = retryCount e + n \<and>
   length (snd (retryLoop n d src i t e)) = n"
proof (induction n arbitrary: i t e)
  case 0
  show ?case by simp
next
  case (Suc n)
  from Suc.prems [of 0] obtain l err where s: "src i = (l, Failure err)"
    by (auto elim: failingE)
  have rest: "\<And>j. j < n \<Longrightarrow> failing src (Suc i + j)"
    using Suc.prems [of "Suc _"] by simp
  note IH = Suc.IH [OF rest, of "t + l + d"
      "e\<lparr>retryCount := retryCount e + 1, lastError := Some err\<rparr>"]
  show ?case using IH by (simp add: s split_beta Let_def)
qed

lemma retryLoop_success:
  "k < n \<Longrightarrow> (\<And>j. j < k \<Longrightarrow> failing src (i + j)) \<Longrightarrow> snd (src (i + k)) = Fetched x \<Longrightarrow>
   status (fst (retryLoop n d src i t e)) = Success \<and>
   retryCount (fst (retryLoop n d src i t e)) = 0 \<and>
   data (fst (retryLoop n d src i t e)) = Some x \<and>
   length (snd (retryLoop n d src i t e)) = k + 1"
proof (induction k arbitrary: n i t e)
  case 0
  then obtain m where n: "n = Suc m" by (cases n) auto
  from 0 obtain l where s: "src i = (l, Fetched x)" by (cases "src i") auto
  show ?case by (simp add: n s)
next
  case (Suc k)
  then obtain m where n: "n = Suc m" and km: "k < m" by (cases n) auto
  from Suc.prems(2) [of 0] obtain l err where s: "src i = (l, Failure err)"
    by (auto elim: failingE)
  have rest: "\<And>j. j < k \<Longrightarrow> failing src (Suc i + j)"
    using Suc.prems(2) [of "Suc _"] by simp
  have ok: "snd (src (Suc i + k)) = Fetched x" using Suc.prems(3) by simp
  note IH = Suc.IH [OF km rest ok, of "t + l + d"
      "e\<lparr>retryCount := retryCount e + 1, lastError := Some err\<rparr>"]
  show ?case using IH by (simp add: n s split_beta Let_def)
qed

lemma retryLoop_first:
  "snd (retryLoop n d src i t e) \<noteq> [] \<Longrightarrow> fst (hd (snd (retryLoop n d src i t e))) = t"
  by (cases n; cases "src i"; cases "snd (src i)") (auto simp: split_beta Let_def)

lemma retryLoop_gap:
  "Suc j < length (snd (retryLoop n d src i t e)) \<Longrightarrow>
   fst (snd (retryLoop n d src i t e) ! Suc j) = snd (snd (retryLoop n d src i t e) ! j) + d"
proof (induction n arbitrary: j i t e)
  case 0
  then show ?case by simp
next
  case (Suc n)
  obtain l r where s: "src i = (l, r)" by (cases "src i")
  show ?case
  proof (cases r)
    case (Fetched x)
    with Suc.prems s show ?thesis by simp
  next
    case (Failure err)
    let ?R = "retryLoop n d src (Suc i) (t + l + d)
      (e\<lparr>retryCount := retryCount e + 1, lastError := Some err\<rparr>)"
    have eq: "snd (retryLoop (Suc n) d src i t e) = (t, t + l) # snd ?R"
      by (simp add: s Failure split_beta Let_def)
    show ?thesis
    proof (cases j)
      case 0
      with Suc.prems eq have ne: "snd ?R \<noteq> []" by auto
      from retryLoop_first [OF ne] have "fst (snd ?R ! 0) = t + l + d"
        using ne by (simp add: hd_conv_nth)
      with 0 eq show ?thesis by simp
    next
      case (Suc j')
      with Suc.prems eq have "Suc j' < length (snd ?R)" by simp
      from Suc.IH [OF this] Suc eq show ?thesis by simp
    qed
  qed
qed

text \<open>
  Claim C3. With the options of the source (three attempts, one second of delay): a fetch
  whose three attempts all fail makes exactly three attempts and leaves the entry with
  \<open>status = Error\<close> and \<open>retryCount = 3\<close>; every failed attempt adds one to
  \<open>retryCount\<close>; a fetch whose attempt \<open>k < 3\<close> is the first to succeed makes \<open>k + 1\<close>
  attempts and leaves the entry with \<open>status = Success\<close>, \<open>retryCount = 0\<close> and the
  fetched data, whatever the entry was before (an entry in error included); and every
  attempt after the first starts one second after the end of the attempt before it.
\<close>

theorem retry_policy_default:
  "retry queryOptions = 3 \<and> retryDelay queryOptions = 1000 \<and>
   ((\<forall>j<3. failing src j) \<longrightarrow>
      status (fst (fetch queryOptions src t e)) = Error \<and>
      retryCount (fst (fetch queryOptions src t e)) = 3 \<and>
      length (snd (fetch queryOptions src t e)) = 3) \<and>
   ((\<forall>j<n. failing src j) \<longrightarrow>
      retryCount (fst (retryLoop n (retryDelay queryOptions) src 0 t e)) = retryCount e + n) \<and>
   (k < 3 \<and> (\<forall>j<k. failing src j) \<and> snd (src k) = Fetched x \<longrightarrow>
      status (fst (fetch queryOptions src t e)) = Success \<and>
      retryCount (fst (fetch queryOptions src t e)) = 0 \<and>
      data (fst (fetch queryOptions src t e)) = Some x \<and>
      length (snd (fetch queryOptions src t e)) = k + 1) \<and>
   (Suc i < length (snd (fetch queryOptions src t e)) \<longrightarrow>
      fst (snd (fetch queryOptions src t e) ! Suc i)
        = snd (snd (fetch queryOptions src t e) ! i) + 1000)"
proof -
  have opts: "retry queryOptions = 3" "retryDelay queryOptions = 1000"
    by (simp_all add: queryOptions_def)
  have a: "(\<forall>j<3. failing src j) \<longrightarrow>
      status (fst (fetch queryOptions src t e)) = Error \<and>
      retryCount (fst (fetch queryOptions src t e)) = 3 \<and>
      length (snd (fetch queryOptions src t e)) = 3"
    using retryLoop_all_fail [of 3 src 0 1000 t "startFetch e"]
    by (simp add: fetch_def opts startFetch_def)
  have b: "(\<forall>j<n. failing src j) \<longrightarrow>
      retryCount (fst (retryLoop n (retryDelay queryOptions) src 0 t e)) = retryCount e + n"
    using retryLoop_all_fail [of n src 0 "retryDelay queryOptions" t e] by simp
  have c: "k < 3 \<and> (\<forall>j<k. failing src j) \<and> snd (src k) = Fetched x \<longrightarrow>
      status (fst (fetch queryOptions src t e)) = Success \<and>
      retryCount (fst (fetch queryOptions src t e)) = 0 \<and>
      data (fst (fetch queryOptions src t e)) = Some x \<and>
      length (snd (fetch queryOptions src t e)) = k + 1"
    using retryLoop_success [of k 3 src 0 x 1000 t "startFetch e"]
    by (simp add: fetch_def opts)
  have d: "Suc i < length (snd (fetch queryOptions src t e)) \<longrightarrow>
      fst (snd (fetch queryOptions src t e) ! Suc i)
        = snd (snd (fetch queryOptions src t e) ! i) + 1000"
    using retryLoop_gap [of i 3 1000 src 0 t "startFetch e"]
    by (simp add: fetch_def opts)
  from opts a b c d show ?thesis by blast
qed

theorem retry_policy_default_witness:
  "failing (\<lambda>i. (200, Failure ''offline'') :: nat \<times> cryptoData list outcome) 2 \<and>
   status (fst (fetch queryOptions (\<lambda>i. (200, Failure ''offline'')) 0
     (emptyEntry :: cryptoData list cache_entry))) = Error \<and>
   retryCount (fst (fetch queryOptions (\<lambda>i. (200, Failure ''offline'')) 0
     (emptyEntry :: cryptoData list cache_entry))) = 3 \<and>
   snd (fetch queryOptions (\<lambda>i. (200, Failure ''offline'')) 0
     (emptyEntry :: cryptoData list cache_entry)) = [(0, 200), (1200, 1400), (2400, 2600)] \<and>
   failing (\<lambda>i. if i = 1 then queryFn i else (200, Failure ''offline'')) 0 \<and>
   snd ((\<lambda>i. if i = 1 then queryFn i else (200, Failure ''offline'')) 1) = Fetched mockData \<and>
   status (fst (fetch queryOptions (\<lambda>i. if i = 1 then queryFn i else (200, Failure ''offline''))
     0 emptyEntry)) = Success \<and>
   retryCount (fst (fetch queryOptions
     (\<lambda>i. if i = 1 then queryFn i else (200, Failure ''offline'')) 0 emptyEntry)) = 0 \<and>
   snd (fetch queryOptions (\<lambda>i. if i = 1 then queryFn i else (200, Failure ''offline''))
     0 emptyEntry) = [(0, 200), (1200, 2200)]"
  using retry_policy_default
      [of "\<lambda>i. (200, Failure ''offline'')" 0 "emptyEntry :: cryptoData list cache_entry" 3 0
        mockData 1]
    retry_policy_default
      [of "\<lambda>i. if i = 1 then queryFn i else (200, Failure ''offline'')" 0 emptyEntry 0 1
        mockData 0]
  by (simp add: failing_def queryFn_def fetch_def queryOptions_def numeral_3_eq_3)

lemma retryLoop_fetchedAt:
  "k < n \<Longrightarrow> (\<And>j. j < k \<Longrightarrow> failing src (i + j)) \<Longrightarrow> snd (src (i + k)) = Fetched x \<Longrightarrow>
   \<exists>tf. fetchedAt (fst (retryLoop n d src i t e)) = Some tf \<and> t \<le> tf"
proof (induction k arbitrary: n i t e)
  case 0
  then obtain m where n: "n = Suc m" by (cases n) auto
  from 0 obtain l where s: "src i = (l, Fetched x)" by (cases "src i") auto
  show ?case by (simp add: n s)
next
  case (Suc k)
  then obtain m where n: "n = Suc m" and km: "k < m" by (cases n) auto
  from Suc.prems(2) [of 0] obtain l err where s: "src i = (l, Failure err)"
    by (auto elim: failingE)
  have rest: "\<And>j. j < k \<Longrightarrow> failing src (Suc i + j)"
    using Suc.prems(2) [of "Suc _"] by simp
  have ok: "snd (src (Suc i + k)) = Fetched x" using Suc.prems(3) by simp
  from Suc.IH [OF km rest ok, of "t + l + d"
      "e\<lparr>retryCount := retryCount e + 1, lastError := Some err\<rparr>"]
  obtain tf where "fetchedAt (fst (retryLoop m d src (Suc i) (t + l + d)
      (e\<lparr>retryCount := retryCount e + 1, lastError := Some err\<rparr>))) = Some tf" "t + l + d \<le> tf"
    by blast
  then show ?case by (intro exI [of _ tf]) (simp add: n s split_beta Let_def)
qed

lemma requestFetch_inflight:
  "inflight (requestFetch now q) = (if inflight q > 0 then inflight q else 1)"
  by (simp add: requestFetch_def)

lemma step_inflight:
  "inflight q \<le> 1 \<Longrightarrow> inflight (step opts ev q) \<le> 1"
  by (cases ev) (auto simp: Let_def requestFetch_inflight split: option.splits prod.splits)

lemma run_inflight:
  "(\<And>k. inflight (c k) \<le> 1) \<Longrightarrow> inflight (run opts evs c k) \<le> 1"
proof (induction evs arbitrary: c k)
  case Nil
  then show ?case by (simp add: run_def)
next
  case (Cons kev evs)
  obtain k' ev where kev: "kev = (k', ev)" by (cases kev)
  have "\<And>k. inflight (dispatch opts c kev k) \<le> 1"
    using Cons.prems step_inflight [of "c k'" opts ev] by (auto simp: dispatch_def kev)
  from Cons.IH [OF this] show ?case by (simp add: run_def)
qed

lemma subscribe_twice:
  "issued (step opts (GetOrSubscribe t2) (step opts (GetOrSubscribe t1) q)) \<le> issued q + 1"
  by (auto simp: Let_def requestFetch_def isStale_def split: option.splits)

lemma subscribe_joins:
  "0 < inflight q \<Longrightarrow> issued (step opts (GetOrSubscribe t1) q) = issued q"
  by (simp add: Let_def requestFetch_def)

lemma subscribe_fresh:
  "entry q = Some e \<Longrightarrow> fetchedAt e = Some tf \<Longrightarrow> \<not> invalidated q \<Longrightarrow> t \<le> tf + staleTime opts \<Longrightarrow>
   issued (step opts (GetOrSubscribe t) q) = issued q"
  by (auto simp: Let_def isStale_def)

lemma subscribe_issued_le:
  "issued (step opts (GetOrSubscribe t) q) \<le> issued q + 1"
  by (simp add: Let_def requestFetch_def)

lemma subscribe_issues:
  assumes "issued (step opts (GetOrSubscribe t) q) \<noteq> issued q"
  shows "startedAt (step opts (GetOrSubscribe t) q) = t"
    and "inflight (step opts (GetOrSubscribe t) q) = 1"
    and "\<not> invalidated (step opts (GetOrSubscribe t) q)"
    and "0 < subscribers (step opts (GetOrSubscribe t) q)"
  using assms by (auto simp: Let_def requestFetch_def split: if_splits)

lemma settle_issued: "issued (step opts (Settle src) q) = issued q"
  by (simp add: Let_def split: prod.splits)

lemma settle_success:
  assumes "inflight q = 1" "0 < subscribers q" "\<not> invalidated q"
    "a < retry opts" "\<And>j. j < a \<Longrightarrow> failing src j" "snd (src a) = Fetched d"
  shows "\<exists>e tf. entry (step opts (Settle src) q) = Some e \<and> fetchedAt e = Some tf \<and>
    startedAt q \<le> tf \<and> \<not> invalidated (step opts (Settle src) q)"
proof -
  let ?e0 = "case entry q of None \<Rightarrow> emptyEntry | Some e \<Rightarrow> e"
  from retryLoop_fetchedAt [of a "retry opts" src 0 d "retryDelay opts" "startedAt q" ?e0]
    assms(4,5,6)
  obtain tf where tf: "fetchedAt (fst (retryLoop (retry opts) (retryDelay opts) src 0
      (startedAt q) ?e0)) = Some tf" "startedAt q \<le> tf"
    by auto
  show ?thesis
    using assms(1,2,3) tf
    by (simp add: Let_def settled_def split_beta)
qed

lemma subscribe_settle_subscribe:
  assumes "a < retry opts" "\<And>j. j < a \<Longrightarrow> failing src j" "snd (src a) = Fetched d"
    "t2 \<le> t1 + staleTime opts"
  shows "issued (step opts (GetOrSubscribe t2) (step opts (Settle src)
    (step opts (GetOrSubscribe t1) q))) \<le> issued q + 1"
proof -
  define q1 where "q1 = step opts (GetOrSubscribe t1) q"
  define q2 where "q2 = step opts (Settle src) q1"
  have s: "issued q2 = issued q1" unfolding q2_def by (rule settle_issued)
  have le1: "issued q1 \<le> issued q + 1" unfolding q1_def by (rule subscribe_issued_le)
  have "issued (step opts (GetOrSubscribe t2) q2) \<le> issued q + 1"
  proof (cases "issued q1 = issued q")
    case True
    have "issued (step opts (GetOrSubscribe t2) q2) \<le> issued q2 + 1"
      by (rule subscribe_issued_le)
    with True s show ?thesis by linarith
  next
    case False
    have ne: "issued (step opts (GetOrSubscribe t1) q) \<noteq> issued q"
      using False unfolding q1_def .
    note i = subscribe_issues [OF ne, folded q1_def]
    from settle_success [OF i(2) i(4) i(3) assms(1,2,3), folded q2_def]
    obtain e tf where e: "entry q2 = Some e" "fetchedAt e = Some tf"
      "startedAt q1 \<le> tf" "\<not> invalidated q2"
      by blast
    have "t2 \<le> tf + staleTime opts" using e(3) i(1) assms(4) by linarith
    from subscribe_fresh [OF e(1,2) e(4) this]
    have "issued (step opts (GetOrSubscribe t2) q2) = issued q2" .
    with s le1 show ?thesis by linarith
  qed
  then show ?thesis by (simp only: q1_def q2_def)
qed

text \<open>
  Claim C6. For every query identity at most one fetch is in flight after any sequence
  of events, from any cache for which this holds (the empty one included). Two
  subscriptions to one identity, one right after the other, issue at most one fetch
  between them; a subscription that finds a fetch in flight issues none; a subscription
  that finds data within the staleness window issues none; and when the fetch of the
  first subscription has completed in success, a second subscription within the
  staleness window of the first issues no further fetch, so at most one is issued in
  all.
\<close>

theorem cache_dedup_invariant:
  "((\<forall>k. inflight (c k) \<le> 1) \<longrightarrow> (\<forall>k. inflight (run opts evs c k) \<le> 1)) \<and>
   (\<forall>k. inflight (run opts evs (emptyCache :: 'k \<Rightarrow> 'a query) k) \<le> 1) \<and>
   issued (run opts [(k, GetOrSubscribe t1), (k, GetOrSubscribe t2)] c k) \<le> issued (c k) + 1 \<and>
   (0 < inflight (c k) \<longrightarrow> issued (run opts [(k, GetOrSubscribe t1)] c k) = issued (c k)) \<and>
   (entry (c k) = Some e \<and> fetchedAt e = Some tf \<and> \<not> invalidated (c k) \<and>
    t1 \<le> tf + staleTime opts \<longrightarrow>
      issued (run opts [(k, GetOrSubscribe t1)] c k) = issued (c k)) \<and>
   (a < retry opts \<and> (\<forall>j<a. failing src j) \<and> snd (src a) = Fetched d \<and>
    t2 \<le> t1 + staleTime opts \<longrightarrow>
      issued (run opts [(k, GetOrSubscribe t1), (k, Settle src), (k, GetOrSubscribe t2)] c k)
        \<le> issued (c k) + 1)"
proof -
  have e: "\<And>k. inflight ((emptyCache :: 'k \<Rightarrow> 'a query) k) \<le> 1"
    by (simp add: emptyCache_def emptyQuery_def)
  have six: "a < retry opts \<and> (\<forall>j<a. failing src j) \<and> snd (src a) = Fetched d \<and>
    t2 \<le> t1 + staleTime opts \<longrightarrow>
      issued (run opts [(k, GetOrSubscribe t1), (k, Settle src), (k, GetOrSubscribe t2)] c k)
        \<le> issued (c k) + 1"
    using subscribe_settle_subscribe [of a opts src d t2 t1 "c k"]
    by (simp add: run_def dispatch_def)
  have five: "entry (c k) = Some e \<and> fetchedAt e = Some tf \<and> \<not> invalidated (c k) \<and>
    t1 \<le> tf + staleTime opts \<longrightarrow>
      issued (run opts [(k, GetOrSubscribe t1)] c k) = issued (c k)"
    using subscribe_fresh [of "c k" e tf t1 opts] by (simp add: run_def dispatch_def)
  have four: "((\<forall>k. inflight (c k) \<le> 1) \<longrightarrow> (\<forall>k. inflight (run opts evs c k) \<le> 1)) \<and>
   (\<forall>k. inflight (run opts evs (emptyCache :: 'k \<Rightarrow> 'a query) k) \<le> 1) \<and>
   issued (run opts [(k, GetOrSubscribe t1), (k, GetOrSubscribe t2)] c k) \<le> issued (c k) + 1 \<and>
   (0 < inflight (c k) \<longrightarrow> issued (run opts [(k, GetOrSubscribe t1)] c k) = issued (c k))"
    using run_inflight [of c opts evs] run_inflight [OF e, of opts evs]
      subscribe_twice [of opts t2 t1 "c k"] subscribe_joins [of "c k" opts t1]
    by (simp add: run_def dispatch_def)
  from four five six show ?thesis by blast
qed

theorem cache_dedup_invariant_witness:
  "(\<forall>k. inflight ((emptyCache :: string \<Rightarrow> cryptoData list query) k) \<le> 1) \<and>
   inflight (run queryOptions
     [(''cryptoData'', GetOrSubscribe 0), (''cryptoData'', RefreshNow 5),
      (''cryptoData'', GetOrSubscribe 10)]
     (emptyCache :: string \<Rightarrow> cryptoData list query) ''cryptoData'') = 1 \<and>
   issued (run queryOptions
     [(''cryptoData'', GetOrSubscribe 0), (''cryptoData'', RefreshNow 5),
      (''cryptoData'', GetOrSubscribe 10)]
     (emptyCache :: string \<Rightarrow> cryptoData list query) ''cryptoData'') = 1 \<and>
   0 < inflight (run queryOptions [(''cryptoData'', GetOrSubscribe 0)]
     (emptyCache :: string \<Rightarrow> cryptoData list query) ''cryptoData'') \<and>
   issued (run queryOptions [(''cryptoData'', GetOrSubscribe 10)]
     (run queryOptions [(''cryptoData'', GetOrSubscribe 0)]
       (emptyCache :: string \<Rightarrow> cryptoData list query)) ''cryptoData'') = 1 \<and>
   entry (run queryOptions [(''cryptoData'', GetOrSubscribe 0), (''cryptoData'', Settle queryFn)]
     emptyCache ''cryptoData'')
     = Some \<lparr>data = Some mockData, fetchedAt = Some 1000, status = Success, retryCount = 0,
         lastError = None\<rparr> \<and>
   issued (run queryOptions [(''cryptoData'', GetOrSubscribe 10000)]
     (run queryOptions [(''cryptoData'', GetOrSubscribe 0), (''cryptoData'', Settle queryFn)]
       emptyCache) ''cryptoData'') = 1 \<and>
   snd (queryFn 0) = Fetched mockData \<and>
   issued (run queryOptions
     [(''cryptoData'', GetOrSubscribe 0), (''cryptoData'', Settle queryFn),
      (''cryptoData'', GetOrSubscribe 10000)]
     emptyCache ''cryptoData'') = 1"
  using cache_dedup_invariant
      [of "emptyCache :: string \<Rightarrow> cryptoData list query" queryOptions
        "[(''cryptoData'', GetOrSubscribe 0), (''cryptoData'', RefreshNow 5),
          (''cryptoData'', GetOrSubscribe 10)]" "''cryptoData''" 0 10
        emptyEntry 0 0 queryFn mockData]
    cache_dedup_invariant
      [of "run queryOptions [(''cryptoData'', GetOrSubscribe 0)]
            (emptyCache :: string \<Rightarrow> cryptoData list query)" queryOptions "[]"
        "''cryptoData''" 10 20 emptyEntry 0 0 queryFn mockData]
    cache_dedup_invariant
      [of "run queryOptions
             [(''cryptoData'', GetOrSubscribe 0), (''cryptoData'', Settle queryFn)]
             (emptyCache :: string \<Rightarrow> cryptoData list query)" queryOptions "[]"
        "''cryptoData''" 10000 20000
        "\<lparr>data = Some mockData, fetchedAt = Some 1000, status = Success, retryCount = 0,
           lastError = None\<rparr>" 1000 0 queryFn mockData]
    cache_dedup_invariant
      [of "emptyCache :: string \<Rightarrow> cryptoData list query" queryOptions "[]"
        "''cryptoData''" 0 10000 emptyEntry 0 0 queryFn mockData]
  by (simp add: run_def dispatch_def emptyCache_def emptyQuery_def emptyEntry_def isStale_def
      requestFetch_def startFetch_def settled_def finishedAt_def queryFn_def queryOptions_def
      numeral_3_eq_3 Let_def)

lemma tick_fires:
  assumes "timer q = Some now" "0 < subscribers q" "inflight q = 0"
  shows "issued (step opts (Tick now) q) = issued q + 1"
    and "inflight (step opts (Tick now) q) = 1"
    and "startedAt (step opts (Tick now) q) = now"
    and "subscribers (step opts (Tick now) q) = subscribers q"
  using assms by (simp_all add: requestFetch_def)

lemma settle_done:
  assumes "inflight q = 1" "0 < subscribers q"
  shows "issued (step opts (Settle src) q) = issued q"
    and "inflight (step opts (Settle src) q) = 0"
    and "timer (step opts (Settle src) q) = Some (snd (settled opts src q) + refetchInterval opts)"
    and "subscribers (step opts (Settle src) q) = subscribers q"
  using assms by (simp_all add: Let_def split_beta)

lemma rounds_state:
  "timer q = Some t \<Longrightarrow> 0 < subscribers q \<Longrightarrow> inflight q = 0 \<Longrightarrow>
   issued (rounds opts n srcs q) = issued q + n \<and>
   (\<exists>t'. timer (rounds opts n srcs q) = Some t') \<and>
   subscribers (rounds opts n srcs q) = subscribers q \<and>
   inflight (rounds opts n srcs q) = 0"
proof (induction n arbitrary: q t srcs)
  case 0
  then show ?case by simp
next
  case (Suc n)
  define q1 where "q1 = step opts (Tick t) q"
  define q2 where "q2 = step opts (Settle (srcs 0)) q1"
  note tick = tick_fires [OF Suc.prems, of opts, folded q1_def]
  have s1: "0 < subscribers q1" using tick(4) Suc.prems(2) by simp
  note settle = settle_done [OF tick(2) s1, of opts "srcs 0", folded q2_def]
  have s2: "0 < subscribers q2" using settle(4) s1 by simp
  note IH = Suc.IH [OF settle(3) s2 settle(2), of "\<lambda>i. srcs (Suc i)"]
  have r: "rounds opts (Suc n) srcs q = rounds opts n (\<lambda>i. srcs (Suc i)) q2"
    using Suc.prems(1) by (simp add: q1_def q2_def)
  show ?case unfolding r using IH tick(1,4) settle(1,4) by simp
qed

text \<open>
  Claim C7. The interval of the source is 30 seconds and the staleness threshold five
  minutes. The timer is armed for 30 seconds at the first subscription and again at
  every completed fetch. When it fires with a subscriber mounted and no fetch in flight,
  a fetch is issued whatever the age of the cached data, also when the staleness check
  of a subscription finds the same data fresh; with no subscriber nothing happens. So
  \<open>n\<close> rounds of the timer issue \<open>n\<close> fetches, each 30 seconds after the one before it
  has completed.
\<close>

theorem periodic_refresh_unconditional:
  "refetchInterval queryOptions = 30000 \<and> staleTime queryOptions = 300000 \<and>
   (timer q = None \<longrightarrow> timer (step queryOptions (GetOrSubscribe now) q) = Some (now + 30000)) \<and>
   (timer q = Some now \<and> 0 < subscribers q \<and> inflight q = 0 \<longrightarrow>
      issued (step queryOptions (Tick now) q) = issued q + 1 \<and>
      inflight (step queryOptions (Tick now) q) = 1 \<and>
      startedAt (step queryOptions (Tick now) q) = now) \<and>
   (subscribers q = 0 \<longrightarrow> step queryOptions (Tick now) q = q) \<and>
   (inflight q = 1 \<and> 0 < subscribers q \<longrightarrow>
      timer (step queryOptions (Settle src) q)
        = Some (snd (settled queryOptions src q) + 30000)) \<and>
   (timer q = Some now \<and> 0 < subscribers q \<and> inflight q = 0 \<longrightarrow>
      issued (rounds queryOptions n srcs q) = issued q + n) \<and>
   (entry q = Some e \<and> fetchedAt e = Some t0 \<and> \<not> invalidated q \<and> now \<le> t0 + 300000 \<longrightarrow>
      \<not> isStale queryOptions now q \<and>
      (timer q = Some now \<and> 0 < subscribers q \<and> inflight q = 0 \<longrightarrow>
         issued (step queryOptions (Tick now) q) = issued q + 1))"
proof -
  have o: "refetchInterval queryOptions = 30000" "staleTime queryOptions = 300000"
    by (simp_all add: queryOptions_def)
  have arm: "timer q = None \<longrightarrow>
      timer (step queryOptions (GetOrSubscribe now) q) = Some (now + 30000)"
    by (simp add: Let_def requestFetch_def o)
  have fire: "timer q = Some now \<and> 0 < subscribers q \<and> inflight q = 0 \<longrightarrow>
      issued (step queryOptions (Tick now) q) = issued q + 1 \<and>
      inflight (step queryOptions (Tick now) q) = 1 \<and>
      startedAt (step queryOptions (Tick now) q) = now"
    using tick_fires [of q now queryOptions] by blast
  have off: "subscribers q = 0 \<longrightarrow> step queryOptions (Tick now) q = q"
    by simp
  have rearm: "inflight q = 1 \<and> 0 < subscribers q \<longrightarrow>
      timer (step queryOptions (Settle src) q)
        = Some (snd (settled queryOptions src q) + 30000)"
    using settle_done(3) [of q queryOptions src] by (simp only: o) blast
  have many: "timer q = Some now \<and> 0 < subscribers q \<and> inflight q = 0 \<longrightarrow>
      issued (rounds queryOptions n srcs q) = issued q + n"
    using rounds_state [of q now queryOptions n srcs] by blast
  have fresh: "entry q = Some e \<and> fetchedAt e = Some t0 \<and> \<not> invalidated q \<and>
      now \<le> t0 + 300000 \<longrightarrow> \<not> isStale queryOptions now q"
    by (auto simp: isStale_def o)
  from o arm fire off rearm many fresh show ?thesis by blast
qed

text \<open>The scenario of the seeded cache: the dashboard mounts 40 seconds after the
  data was fetched. The subscription issues no fetch and arms the timer; its firing, 30
  seconds later, issues one; that fetch completes a second later, and the timer is armed
  for 30 seconds after that.\<close>

theorem periodic_refresh_unconditional_witness:
  "\<not> isStale queryOptions 40000 seeded \<and>
   issued (step queryOptions (GetOrSubscribe 40000) seeded) = 0 \<and>
   timer (step queryOptions (GetOrSubscribe 40000) seeded) = Some 70000 \<and>
   0 < subscribers (step queryOptions (GetOrSubscribe 40000) seeded) \<and>
   inflight (step queryOptions (GetOrSubscribe 40000) seeded) = 0 \<and>
   \<not> isStale queryOptions 70000 (step queryOptions (GetOrSubscribe 40000) seeded) \<and>
   issued (step queryOptions (Tick 70000) (step queryOptions (GetOrSubscribe 40000) seeded)) = 1 \<and>
   settled queryOptions queryFn
     (step queryOptions (Tick 70000) (step queryOptions (GetOrSubscribe 40000) seeded))
     = (\<lparr>data = Some mockData, fetchedAt = Some 71000, status = Success, retryCount = 0,
         lastError = None\<rparr>, 71000) \<and>
   timer (step queryOptions (Settle queryFn)
     (step queryOptions (Tick 70000) (step queryOptions (GetOrSubscribe 40000) seeded)))
     = Some 101000 \<and>
   issued (rounds queryOptions 4 (\<lambda>i. queryFn)
     (step queryOptions (GetOrSubscribe 40000) seeded)) = 4"
  using periodic_refresh_unconditional
      [of seeded 40000 queryFn 4 "\<lambda>i. queryFn"
        "\<lparr>data = Some mockData, fetchedAt = Some 0, status = Success, retryCount = 0,
          lastError = None\<rparr>" 0]
    periodic_refresh_unconditional
      [of "step queryOptions (GetOrSubscribe 40000) seeded" 70000 queryFn 4 "\<lambda>i. queryFn"
        "\<lparr>data = Some mockData, fetchedAt = Some 0, status = Success, retryCount = 0,
          lastError = None\<rparr>" 0]
    periodic_refresh_unconditional
      [of "step queryOptions (Tick 70000) (step queryOptions (GetOrSubscribe 40000) seeded)"
        70000 queryFn 0 "\<lambda>i. queryFn"
        "\<lparr>data = Some mockData, fetchedAt = Some 0, status = Success, retryCount = 0,
          lastError = None\<rparr>" 0]
  by (simp add: seeded_def emptyQuery_def isStale_def queryOptions_def requestFetch_def
      startFetch_def settled_def finishedAt_def queryFn_def numeral_3_eq_3 Let_def)


end
